theory Spec2Isabelle
  imports Complex_Main "HOL-Library.Multiset" "HOL-Library.Sublist" "HOL-Library.Signed_Division"
begin

section \<open>Strings\<close>

text \<open>
  A Go string is a sequence of bytes holding UTF-8 text; it is modelled as a
  \<^typ>\<open>string\<close>, one \<^typ>\<open>char\<close> per byte.
\<close>

definition nl :: char where
  "nl = CHR 0x0A"

definition tab :: char where
  "tab = CHR 0x09"

subsection \<open>strings.TrimSpace\<close>

text \<open>
  The white space of Go's \<open>unicode.IsSpace\<close>: the six ASCII characters
  tab, line feed, vertical tab, form feed, carriage return and space, and, in
  their UTF-8 encodings, U+0085, U+00A0, U+1680, U+2000 to U+200A, U+2028,
  U+2029, U+202F, U+205F and U+3000.
\<close>

definition asciiSpace :: "char \<Rightarrow> bool" where
  "asciiSpace c = (c \<in> set [CHR 0x09, CHR 0x0A, CHR 0x0B, CHR 0x0C, CHR 0x0D, CHR 0x20])"

definition isSpace2 :: "char \<Rightarrow> char \<Rightarrow> bool" where
  "isSpace2 a b = (a = CHR 0xC2 \<and> (b = CHR 0x85 \<or> b = CHR 0xA0))"

definition isSpace3 :: "char \<Rightarrow> char \<Rightarrow> char \<Rightarrow> bool" where
  "isSpace3 a b c =
     ((a = CHR 0xE1 \<and> b = CHR 0x9A \<and> c = CHR 0x80)
      \<or> (a = CHR 0xE2 \<and> b = CHR 0x80
          \<and> c \<in> set [CHR 0x80, CHR 0x81, CHR 0x82, CHR 0x83, CHR 0x84, CHR 0x85,
                      CHR 0x86, CHR 0x87, CHR 0x88, CHR 0x89, CHR 0x8A,
                      CHR 0xA8, CHR 0xA9, CHR 0xAF])
      \<or> (a = CHR 0xE2 \<and> b = CHR 0x81 \<and> c = CHR 0x9F)
      \<or> (a = CHR 0xE3 \<and> b = CHR 0x80 \<and> c = CHR 0x80))"

text \<open>Dropping the leading white space, one rune at a time.\<close>

fun TrimLeftSpace :: "string \<Rightarrow> string" where
  "TrimLeftSpace (a # b # c # s) =
     (if asciiSpace a then TrimLeftSpace (b # c # s)
      else if isSpace2 a b then TrimLeftSpace (c # s)
      else if isSpace3 a b c then TrimLeftSpace s
      else a # b # c # s)"
| "TrimLeftSpace [a, b] =
     (if asciiSpace a then TrimLeftSpace [b]
      else if isSpace2 a b then []
      else [a, b])"
| "TrimLeftSpace [a] = (if asciiSpace a then [] else [a])"
| "TrimLeftSpace [] = []"

text \<open>
  Dropping the trailing white space: the same scan over the reversed string,
  where the bytes of a rune arrive last byte first.
\<close>

fun trimRevSpace :: "string \<Rightarrow> string" where
  "trimRevSpace (c # b # a # s) =
     (if asciiSpace c then trimRevSpace (b # a # s)
      else if isSpace2 b c then trimRevSpace (a # s)
      else if isSpace3 a b c then trimRevSpace s
      else c # b # a # s)"
| "trimRevSpace [c, b] =
     (if asciiSpace c then trimRevSpace [b]
      else if isSpace2 b c then []
      else [c, b])"
| "trimRevSpace [c] = (if asciiSpace c then [] else [c])"
| "trimRevSpace [] = []"

definition TrimRightSpace :: "string \<Rightarrow> string" where
  "TrimRightSpace s = rev (trimRevSpace (rev s))"

definition TrimSpace :: "string \<Rightarrow> string" where
  "TrimSpace s = TrimRightSpace (TrimLeftSpace s)"

section \<open>Running one command\<close>

text \<open>
  What the operating system does with \<open>bash -c cmd\<close>: either the shell runs
  and exits with a status, having written its combined output, or the command
  could not be started or waited for.
\<close>

datatype proc_outcome =
    Exited int string
  | NotRun string

datatype go_error = ExitError int | StartError

text \<open>
  \<open>exec.Cmd.CombinedOutput\<close>: the captured bytes, and an error that is nil
  exactly when the process ran and exited with status zero.
\<close>

fun CombinedOutput :: "proc_outcome \<Rightarrow> string \<times> go_error option" where
  "CombinedOutput (Exited code out) = (out, if code = 0 then None else Some (ExitError code))"
| "CombinedOutput (NotRun out) = (out, Some StartError)"

definition runCommand :: "proc_outcome \<Rightarrow> string \<times> string" where
  "runCommand oc =
     (case CombinedOutput oc of
        (out, Some e) \<Rightarrow> (''Failed'', TrimSpace out)
      | (out, None) \<Rightarrow> (''Passed'', TrimSpace out))"

section \<open>Formatting the elapsed time\<close>

definition isDigit :: "char \<Rightarrow> bool" where
  "isDigit c = (c \<in> set ''0123456789'')"

definition digitChar :: "nat \<Rightarrow> char" where
  "digitChar n = ''0123456789'' ! (n mod 10)"

text \<open>The decimal digits of a natural number, most significant first.\<close>

fun formatNat :: "nat \<Rightarrow> string" where
  "formatNat n = (if n < 10 then [digitChar n] else formatNat (n div 10) @ [digitChar n])"

declare formatNat.simps [simp del]

text \<open>
  Rounding to the nearest integer, a tie going to the even neighbour, as
  \<open>strconv\<close> rounds the exact decimal expansion of a float.
\<close>

definition roundHalfEven :: "rat \<Rightarrow> int" where
  "roundHalfEven x =
     (let f = \<lfloor>x\<rfloor>; d = x - of_int f
      in if d < 1 / 2 then f
         else if 1 / 2 < d then f + 1
         else if even f then f else f + 1)"

text \<open>
  The verb \<open>%.2f\<close> of \<open>fmt.Sprintf\<close>, applied to a finite float given by its
  exact value: a sign when the value is negative, the integer part, a dot and
  two decimals.
\<close>

definition formatFixed2 :: "rat \<Rightarrow> string" where
  "formatFixed2 x =
     (let h = nat (roundHalfEven (\<bar>x\<bar> * 100))
      in (if x < 0 then ''-'' else [])
         @ formatNat (h div 100) @ ''.'' @ [digitChar (h div 10), digitChar h])"

section \<open>The check runner\<close>

record CheckResult =
  Name :: string
  Status :: string
  Message :: string

text \<open>One entry of the catalogue in \<open>runChecks\<close>.\<close>

record check_spec =
  name :: string
  cmd :: string
  errHint :: string

definition quote :: char where
  "quote = CHR 0x27"

definition backslash :: char where
  "backslash = CHR 0x5C"

definition checks :: "check_spec list" where
  "checks =
    [\<lparr>name = ''System Update'',
      cmd = ''sudo apt update -y 2>/dev/null | grep -v '' @ [quote] @ ''WARNING'' @ [quote],
      errHint = ''Failed to fetch updates. Ensure apt is installed and configured.''\<rparr>,
     \<lparr>name = ''Kernel Check'', cmd = ''uname -r'',
      errHint = ''Kernel information not available.''\<rparr>,
     \<lparr>name = ''UFW Firewall Status'', cmd = ''sudo ufw status | grep -q active'',
      errHint = ''UFW firewall is inactive or not installed.''\<rparr>,
     \<lparr>name = ''SSH Security'',
      cmd = ''grep -q '' @ [quote] @ ''PermitRootLogin no'' @ [quote] @ '' /etc/ssh/sshd_config'',
      errHint = ''Root login over SSH is permitted. Update sshd_config.''\<rparr>,
     \<lparr>name = ''Disk Usage'', cmd = ''df -h'',
      errHint = ''Disk usage information could not be retrieved.''\<rparr>,
     \<lparr>name = ''Memory Usage'', cmd = ''free -m'',
      errHint = ''Memory usage data is unavailable.''\<rparr>,
     \<lparr>name = ''Service Status (rsyslog)'', cmd = ''systemctl is-active --quiet rsyslog'',
      errHint = ''rsyslog service is not active.''\<rparr>,
     \<lparr>name = ''Cron Jobs'', cmd = ''crontab -l'',
      errHint = ''No cron jobs found for the current user.''\<rparr>,
     \<lparr>name = ''TLS Support'',
      cmd = ''openssl ciphers -v | grep -q '' @ [quote] @ ''TLSv1.2'' @ [backslash]
            @ ''|TLSv1.3'' @ [quote],
      errHint = ''TLSv1.2 or TLSv1.3 support is missing.''\<rparr>,
     \<lparr>name = ''Password Policy'',
      cmd = ''grep -q '' @ [quote] @ ''minlen'' @ [quote] @ '' /etc/security/pwquality.conf'',
      errHint = ''Password policy not enforced. Check pwquality.conf.''\<rparr>]"

text \<open>
  The body of one goroutine of \<open>runChecks\<close>. Its two readings of the outside
  world are arguments: \<open>oc\<close>, what became of \<open>bash -c cmd\<close>, and \<open>elapsed\<close>,
  the exact value of the float \<open>elapsed.Seconds()\<close>.
\<close>

definition check_worker :: "check_spec \<Rightarrow> proc_outcome \<Rightarrow> rat \<Rightarrow> CheckResult" where
  "check_worker c oc elapsed =
     (let (status, msg) = runCommand oc;
          msg = (if status = ''Failed'' then errHint c @ '' ('' @ msg @ '')'' else msg)
      in \<lparr>Name = name c, Status = status,
          Message = msg @ '' ('' @ formatFixed2 elapsed @ ''s)''\<rparr>)"

text \<open>
  The run of \<open>runChecks\<close> over a catalogue: the loop launches one goroutine per
  entry, in order; a launched goroutine finishes at any later moment, and
  appends its result under the mutex. The schedule is a list of events, each a
  launch or the completion of the goroutine at a position among the running
  ones, with what that goroutine observed. The monotonic clock makes the
  elapsed time non-negative.
\<close>

record run_state =
  todo :: "check_spec list"
  active :: "check_spec list"
  collected :: "CheckResult list"

datatype run_event = Launch | Finish nat proc_outcome rat

fun run_step :: "run_state \<Rightarrow> run_event \<Rightarrow> run_state option" where
  "run_step s Launch =
     (case todo s of
        [] \<Rightarrow> None
      | c # cs \<Rightarrow> Some (s\<lparr>todo := cs, active := active s @ [c]\<rparr>))"
| "run_step s (Finish i oc el) =
     (if i < length (active s) \<and> 0 \<le> el
      then Some (s\<lparr>active := take i (active s) @ drop (Suc i) (active s),
                   collected := collected s @ [check_worker (active s ! i) oc el]\<rparr>)
      else None)"

fun run_events :: "run_state \<Rightarrow> run_event list \<Rightarrow> run_state option" where
  "run_events s [] = Some s"
| "run_events s (e # es) =
     (case run_step s e of None \<Rightarrow> None | Some s' \<Rightarrow> run_events s' es)"

text \<open>
  \<open>wg.Wait()\<close> returns once every entry has been launched and every goroutine
  has finished; a schedule that stops earlier returns nothing.
\<close>

definition runChecks_on :: "check_spec list \<Rightarrow> run_event list \<Rightarrow> CheckResult list option" where
  "runChecks_on cs evs =
     (case run_events \<lparr>todo = cs, active = [], collected = []\<rparr> evs of
        None \<Rightarrow> None
      | Some s \<Rightarrow> if todo s = [] \<and> active s = [] then Some (collected s) else None)"

definition runChecks :: "run_event list \<Rightarrow> CheckResult list option" where
  "runChecks evs = runChecks_on checks evs"



text \<open>
  A schedule of the ten checks in which launches and completions interleave
  and the goroutines finish in an order of their own.
\<close>

definition sample_schedule :: "run_event list" where
  "sample_schedule =
     [Launch, Launch, Finish 1 (Exited 0 ''6.8.0'') (1 / 4), Launch, Launch,
      Finish 2 (Exited 1 []) (1 / 2), Launch, Launch, Launch, Launch, Launch, Launch,
      Finish 0 (Exited 0 ''ok'') 2, Finish 0 (Exited 1 []) 0, Finish 5 (NotRun []) 0,
      Finish 0 (Exited 0 ''df'') 0, Finish 0 (Exited 0 ''free'') 0, Finish 0 (Exited 3 []) 0,
      Finish 0 (Exited 1 ''no crontab for root'') 0, Finish 0 (Exited 0 []) 0]"

text \<open>
  The names a run still owes and the names it has delivered: those of the
  entries not yet launched, of the goroutines running and of the results
  appended.
\<close>

definition names_of :: "run_state \<Rightarrow> string multiset" where
  "names_of s = mset (map name (todo s)) + mset (map name (active s)) + mset (map Name (collected s))"

text \<open>The catalogue of the specification's scenario: one check, A.\<close>

definition scenarioA :: "check_spec list" where
  "scenarioA = [\<lparr>name = ''A'', cmd = ''true'', errHint = []\<rparr>]"

subsection \<open>Shapes of a message\<close>


text \<open>
  The pattern of the specification's scenario, where a space stands between
  the decimals and the unit: an opening parenthesis at the start, digits, a
  dot, two digits, a space, s, and a closing parenthesis at the end.
\<close>

definition matchesSpecPattern :: "string \<Rightarrow> bool" where
  "matchesSpecPattern s =
     (case s of
        [] \<Rightarrow> False
      | c # rest \<Rightarrow>
          c = CHR ''('' \<and> takeWhile isDigit rest \<noteq> []
          \<and> (case dropWhile isDigit rest of
                [p, a, b, sp, u, cl] \<Rightarrow>
                  p = CHR ''.'' \<and> isDigit a \<and> isDigit b \<and> sp = CHR '' ''
                  \<and> u = CHR ''s'' \<and> cl = CHR '')''
              | _ \<Rightarrow> False))"

text \<open>
  The pattern the format string \<open>%s (%.2fs)\<close> gives an empty body: a space,
  an opening parenthesis, digits, a dot, two digits, s, and a closing
  parenthesis at the end.
\<close>

definition matchesDurationOnly :: "string \<Rightarrow> bool" where
  "matchesDurationOnly s =
     (case s of
        sp # c # rest \<Rightarrow>
          sp = CHR '' '' \<and> c = CHR ''('' \<and> takeWhile isDigit rest \<noteq> []
          \<and> (case dropWhile isDigit rest of
                [p, a, b, u, cl] \<Rightarrow>
                  p = CHR ''.'' \<and> isDigit a \<and> isDigit b \<and> u = CHR ''s'' \<and> cl = CHR '')''
              | _ \<Rightarrow> False)
      | _ \<Rightarrow> False)"

section \<open>The presentation layer\<close>

record model =
  results :: "CheckResult list"
  quitting :: bool
  spinner :: int

definition spinnerFrames :: "string list" where
  "spinnerFrames =
     [[CHR 0xE2, CHR 0xA0, CHR 0x8B], [CHR 0xE2, CHR 0xA0, CHR 0x99],
      [CHR 0xE2, CHR 0xA0, CHR 0xB9], [CHR 0xE2, CHR 0xA0, CHR 0xB8],
      [CHR 0xE2, CHR 0xA0, CHR 0xBC], [CHR 0xE2, CHR 0xA0, CHR 0xB4],
      [CHR 0xE2, CHR 0xA0, CHR 0xA6], [CHR 0xE2, CHR 0xA0, CHR 0xA7],
      [CHR 0xE2, CHR 0xA0, CHR 0x87], [CHR 0xE2, CHR 0xA0, CHR 0x8F]]"

text \<open>
  The messages \<open>Update\<close> distinguishes: the batch, a key with the text of its
  \<open>String()\<close>, a tick, the quit message, and \<open>otherMsg\<close> for every message of
  another type that the framework delivers.
\<close>

datatype msg =
    checkResultsMsg "CheckResult list"
  | KeyMsg string
  | tickMsg
  | quitMsg
  | otherMsg

text \<open>
  The commands \<open>Init\<close> and \<open>Update\<close> return: the closure that runs
  \<open>runChecks\<close> and wraps its batch, the closure that returns \<open>quitMsg\<close>,
  \<open>tea.Tick\<close> with its delay in milliseconds, and \<open>tea.Quit\<close>. A nil command is
  \<open>None\<close>.
\<close>

datatype tea_cmd = RunChecksCmd | QuitMsgCmd | Tick nat | Quit

definition Init :: "model \<Rightarrow> tea_cmd" where
  "Init m = RunChecksCmd"

text \<open>Go's \<open>int\<close>, of 64 bits: sums wrap around, and \<open>%\<close> is \<open>smod\<close>.\<close>

definition goInt :: "int \<Rightarrow> int" where
  "goInt x = (x + 2 ^ 63) mod 2 ^ 64 - 2 ^ 63"

fun Update :: "model \<Rightarrow> msg \<Rightarrow> model \<times> tea_cmd option" where
  "Update m (checkResultsMsg rs) = (m\<lparr>results := rs\<rparr>, None)"
| "Update m (KeyMsg k) =
     (if k = ''q'' then (m, Some QuitMsgCmd) else (m, Some (Tick 100)))"
| "Update m tickMsg =
     (m\<lparr>spinner := goInt (spinner m + 1) smod int (length spinnerFrames)\<rparr>, Some (Tick 100))"
| "Update m quitMsg = (m\<lparr>quitting := True\<rparr>, Some Quit)"
| "Update m otherMsg = (m, Some (Tick 100))"

subsection \<open>formatMessage\<close>

text \<open>\<open>strings.Index\<close>: where the first instance of \<open>sub\<close> starts.\<close>

fun Index :: "string \<Rightarrow> string \<Rightarrow> nat option" where
  "Index [] sub = (if sub = [] then Some 0 else None)"
| "Index (c # cs) sub =
     (if prefix sub (c # cs) then Some 0 else map_option Suc (Index cs sub))"

definition Contains :: "string \<Rightarrow> string \<Rightarrow> bool" where
  "Contains s sub = (Index s sub \<noteq> None)"

text \<open>
  \<open>strings.Split\<close> on a separator that is not empty, as both calls of the
  source are: the pieces between the instances of the separator, found from
  the left. (On the empty separator Go cuts after each UTF-8 sequence; the
  model cuts after each byte there, which is the same on ASCII text.)
\<close>

function Split :: "string \<Rightarrow> string \<Rightarrow> string list" where
  "Split s sep =
     (if sep = [] then map (\<lambda>c. [c]) s
      else case Index s sep of
             None \<Rightarrow> [s]
           | Some m \<Rightarrow> take m s # Split (drop (m + length sep) s) sep)"
  by pat_completeness auto
termination
proof (relation "measure (\<lambda>(s, sep). length s)")
  show "wf (measure (\<lambda>(s, sep). length s))" by simp
next
  fix s sep :: string and m :: nat
  assume "sep \<noteq> []" and "Index s sep = Some m"
  then have "s \<noteq> []" by (cases s) auto
  with \<open>sep \<noteq> []\<close> show "((drop (m + length sep) s, sep), (s, sep)) \<in> measure (\<lambda>(s, sep). length s)"
    by simp
qed

declare Split.simps [simp del]

fun Join :: "string list \<Rightarrow> string \<Rightarrow> string" where
  "Join [] sep = []"
| "Join [x] sep = x"
| "Join (x # y # zs) sep = x @ sep @ Join (y # zs) sep"

text \<open>
  The slice \<open>indentedLines\<close> after the loop: made with one empty string per
  line, its first element set to the empty string, every later one to eight
  spaces and the line.
\<close>

definition indentLines :: "string list \<Rightarrow> string list" where
  "indentLines lines =
     fold (\<lambda>i acc. acc[i := ''        '' @ lines ! i]) [1..<length lines]
       ((replicate (length lines) [])[0 := []])"

definition formatMessage :: "string \<Rightarrow> string" where
  "formatMessage msg =
     (let parts = Split msg '' (''
      in if length parts \<noteq> 2 then msg
         else let content = parts ! 0; timing = ''('' @ parts ! 1
              in if Contains content [nl]
                 then Join (indentLines (Split content [nl])) [nl] @ '' '' @ timing
                 else content @ '' '' @ timing)"

subsection \<open>View\<close>

text \<open>
  The text \<open>View\<close> returns is kept symbolic where libraries make it: a piece
  is literal text or a text rendered by a \<open>lipgloss\<close> style, and a screen is
  a sequence of pieces returned as it is, the sequence of pieces written to the
  \<open>tabwriter\<close> as flushed, or the batch as \<open>json.MarshalIndent\<close> prints it with
  an indent of two spaces.
\<close>

datatype style = titleStyle | successStyle | errorStyle | loadingStyle | footerStyle

datatype piece = Text string | Styled style string

datatype screen =
    Direct "piece list"
  | Tabbed "piece list"
  | IndentedJson "CheckResult list"

datatype panic = IndexOutOfRange

text \<open>The three values \<open>Fprintf\<close> writes for one result, with the tabs and the line end.\<close>

definition viewRow :: "CheckResult \<Rightarrow> piece list" where
  "viewRow result =
     (let statusSymbol = (if Status result = ''Failed''
                          then Styled errorStyle [CHR 0xE2, CHR 0x9C, CHR 0x98]
                          else Styled successStyle [CHR 0xE2, CHR 0x9C, CHR 0x94]);
          messageStyle = (if Status result = ''Failed'' then errorStyle else successStyle);
          formattedMsg = formatMessage (Message result)
      in [statusSymbol, Text [tab], Text (Name result @ [tab]), Text [tab],
          Styled messageStyle formattedMsg, Text [nl]])"

definition View :: "string \<Rightarrow> model \<Rightarrow> panic + screen" where
  "View outputFormat m =
     (if quitting m then Inr (Direct [Text (''Exiting...'' @ [nl])])
      else if length (results m) = 0
      then (if 0 \<le> spinner m \<and> spinner m < int (length spinnerFrames)
            then Inr (Direct [Styled loadingStyle
                   (''Performing system checks... '' @ spinnerFrames ! nat (spinner m) @ [nl])])
            else Inl IndexOutOfRange)
      else let w = [Styled titleStyle ''System Check Results:'', Text [nl], Text [nl]]
                   @ concat (map viewRow (results m))
                   @ [Text [nl],
                      Styled footerStyle (''Press '' @ [quote] @ ''q'' @ [quote] @ '' to quit''),
                      Text [nl]]
           in if outputFormat = ''json'' then Inr (IndentedJson (results m))
              else Inr (Tabbed w))"

text \<open>What a render of the Loading state is: the styled indicator with the current frame.\<close>

definition loadingScreen :: "model \<Rightarrow> screen" where
  "loadingScreen m =
     Direct [Styled loadingStyle
       (''Performing system checks... '' @ spinnerFrames ! nat (spinner m) @ [nl])]"

definition exitScreen :: screen where
  "exitScreen = Direct [Text (''Exiting...'' @ [nl])]"

text \<open>
  A passed check with three lines of output, and a model that displays it.
\<close>

definition sample_multiline :: CheckResult where
  "sample_multiline =
     check_worker (checks ! 5) (Exited 0 (''total'' @ [nl] @ ''Mem: 1'' @ [nl] @ ''Swap: 0'' @ [nl])) (1 / 4)"

definition sample_display :: model where
  "sample_display = \<lparr>results = [sample_multiline], quitting = False, spinner = 0\<rparr>"

text \<open>
  A failed check with two lines of output, and a model that displays it.
\<close>

definition sample_failed :: CheckResult where
  "sample_failed =
     check_worker (checks ! 7) (Exited 1 (''no crontab'' @ [nl] @ ''for root'' @ [nl])) (1 / 4)"

definition sample_failed_display :: model where
  "sample_failed_display = \<lparr>results = [sample_failed], quitting = False, spinner = 0\<rparr>"

text \<open>
  A passed check whose two lines of output hold a space followed by an opening
  parenthesis.
\<close>

definition sample_paren :: CheckResult where
  "sample_paren =
     check_worker (checks ! 4) (Exited 0 (''Filesystem (dev)'' @ [nl] @ ''/dev/sda1'' @ [nl])) (1 / 4)"

subsection \<open>The event loop\<close>

text \<open>
  The framework's loop, as far as the program can observe it: it holds the
  model and the commands that are running; it starts with the command of
  \<open>Init\<close>; an event is a key, another message from outside, or the completion
  of one of the running commands, whose message goes through \<open>Update\<close>. The
  messages of the program's own types come from its commands only. The
  completion of \<open>runChecks\<close> carries the schedule of that run. After
  \<open>tea.Quit\<close> completes the loop has stopped.
\<close>

record loop_state =
  mdl :: model
  pending :: "tea_cmd list"
  delivered :: bool
  stopped :: bool

datatype loop_event = KeyPress string | Other | Complete nat "run_event list"

definition deliver :: "loop_state \<Rightarrow> msg \<Rightarrow> loop_state" where
  "deliver s m =
     (let (m', c) = Update (mdl s) m
      in s\<lparr>mdl := m', pending := pending s @ (case c of None \<Rightarrow> [] | Some c' \<Rightarrow> [c'])\<rparr>)"

definition complete :: "loop_state \<Rightarrow> nat \<Rightarrow> run_event list \<Rightarrow> loop_state option" where
  "complete s i sched =
     (if i < length (pending s)
      then let s' = s\<lparr>pending := take i (pending s) @ drop (Suc i) (pending s)\<rparr>
           in (case pending s ! i of
                 RunChecksCmd \<Rightarrow>
                   (case runChecks sched of
                      None \<Rightarrow> None
                    | Some rs \<Rightarrow> Some (deliver (s'\<lparr>delivered := True\<rparr>) (checkResultsMsg rs)))
               | QuitMsgCmd \<Rightarrow> Some (deliver s' quitMsg)
               | Tick d \<Rightarrow> Some (deliver s' tickMsg)
               | Quit \<Rightarrow> Some (s'\<lparr>stopped := True\<rparr>))
      else None)"

fun loop_step :: "loop_state \<Rightarrow> loop_event \<Rightarrow> loop_state option" where
  "loop_step s (KeyPress k) = (if stopped s then None else Some (deliver s (KeyMsg k)))"
| "loop_step s Other = (if stopped s then None else Some (deliver s otherMsg))"
| "loop_step s (Complete i sched) = (if stopped s then None else complete s i sched)"

fun loop_run :: "loop_state \<Rightarrow> loop_event list \<Rightarrow> loop_state option" where
  "loop_run s [] = Some s"
| "loop_run s (e # es) =
     (case loop_step s e of None \<Rightarrow> None | Some s' \<Rightarrow> loop_run s' es)"

definition model0 :: model where
  "model0 = \<lparr>results = [], quitting = False, spinner = 0\<rparr>"

definition loop_init :: loop_state where
  "loop_init = \<lparr>mdl = model0, pending = [Init model0], delivered = False, stopped = False\<rparr>"

text \<open>The model after a sequence of messages has gone through \<open>Update\<close>.\<close>

fun updates :: "model \<Rightarrow> msg list \<Rightarrow> model" where
  "updates m [] = m"
| "updates m (x # xs) = updates (fst (Update m x)) xs"

text \<open>Whether a \<open>tea.Tick\<close> is among the given commands.\<close>

fun schedulesTick :: "tea_cmd list \<Rightarrow> bool" where
  "schedulesTick [] = False"
| "schedulesTick (Tick d # cs) = True"
| "schedulesTick (c # cs) = schedulesTick cs"

text \<open>
  The events after which \<open>Update\<close> returns no tick: the completion of a
  running command, and the key q.
\<close>

fun silentEvent :: "loop_event \<Rightarrow> bool" where
  "silentEvent (Complete i sched) = True"
| "silentEvent (KeyPress k) = (k = ''q'')"
| "silentEvent Other = False"

text \<open>
  What holds of every state of the loop: the spinner is within the frames;
  before the batch message the model has no results, after it the results are
  a batch of \<open>runChecks\<close>.
\<close>

definition loop_inv :: "loop_state \<Rightarrow> bool" where
  "loop_inv s =
     (0 \<le> spinner (mdl s) \<and> spinner (mdl s) < 10
      \<and> (if delivered s then \<exists>sched. runChecks sched = Some (results (mdl s))
          else results (mdl s) = []))"

text \<open>
  What holds as long as only such events arrive: the spinner has not moved,
  and no tick is among the running commands.
\<close>

definition silent :: "loop_state \<Rightarrow> bool" where
  "silent s = (spinner (mdl s) = 0 \<and> set (pending s) \<subseteq> {RunChecksCmd, QuitMsgCmd, Quit})"

section \<open>Process entry\<close>

text \<open>
  What \<open>main\<close> does, as the sequence of its actions on the outside world, from
  the argument list, the effective user id and the error, if any, that running
  the program returns. \<open>log.Fatal\<close> writes its message and exits with status 1.
\<close>

datatype action =
    SetLogOutput
  | SetLogLevel
  | LogFatal string
  | Exit int
  | NewProgram model
  | Run

definition parseArgs :: "string list \<Rightarrow> string" where
  "parseArgs args = (if length args > 1 \<and> args ! 1 = ''--json'' then ''json'' else [])"

definition main :: "string list \<Rightarrow> int \<Rightarrow> string option \<Rightarrow> string \<times> action list" where
  "main args euid runErr =
     (let outputFormat = parseArgs args
      in (outputFormat,
          [SetLogOutput, SetLogLevel]
          @ (if euid \<noteq> 0
             then [LogFatal ''This program must be run as root.'', Exit 1]
             else [NewProgram model0, Run]
                  @ (case runErr of
                       None \<Rightarrow> []
                     | Some e \<Rightarrow> [LogFatal (''Error starting program: '' @ e), Exit 1]))))"

section \<open>Status classification\<close>

text \<open>
  C2. A zero exit status yields the status Passed, a non-zero exit status or a
  command that could not be run yields Failed, and runCommand produces no
  other status.
\<close>

theorem runCommand_status:
  "fst (runCommand (Exited 0 out)) = ''Passed''
   \<and> (code \<noteq> 0 \<longrightarrow> fst (runCommand (Exited code out)) = ''Failed'')
   \<and> fst (runCommand (NotRun out)) = ''Failed''
   \<and> (fst (runCommand oc) = ''Passed'' \<or> fst (runCommand oc) = ''Failed'')
   \<and> (fst (runCommand oc) = ''Passed'' \<longleftrightarrow> (\<exists>out'. oc = Exited 0 out'))"
  by (cases oc) (auto simp: runCommand_def)

theorem runCommand_status_witness:
  "(2::int) \<noteq> 0
   \<and> fst (runCommand (Exited 0 ''ok'')) = ''Passed''
   \<and> fst (runCommand (Exited 2 ''ok'')) = ''Failed''
   \<and> fst (runCommand (NotRun ''ok'')) = ''Failed''"
  using runCommand_status [of "''ok''" 2 "NotRun ''ok''"] by simp

section \<open>The batch\<close>

lemma check_worker_Name [simp]: "Name (check_worker c oc el) = name c"
  by (simp add: check_worker_def split: prod.split)

lemma mset_remove_nth:
  "i < length xs \<Longrightarrow> mset (take i xs @ drop (Suc i) xs) + {#xs ! i#} = mset xs"
proof -
  assume "i < length xs"
  then have "xs = take i xs @ xs ! i # drop (Suc i) xs"
    by (rule id_take_nth_drop)
  then have "mset xs = mset (take i xs @ xs ! i # drop (Suc i) xs)"
    by simp
  then show ?thesis by simp
qed

lemma run_step_names: "run_step s e = Some s' \<Longrightarrow> names_of s' = names_of s"
proof (cases e)
  case Launch
  assume "run_step s e = Some s'"
  with Launch show ?thesis
    by (auto simp: names_of_def split: list.splits)
next
  case (Finish i oc el)
  assume "run_step s e = Some s'"
  with Finish have i: "i < length (active s)"
    and s': "s' = s\<lparr>active := take i (active s) @ drop (Suc i) (active s),
                   collected := collected s @ [check_worker (active s ! i) oc el]\<rparr>"
    by (auto split: if_splits)
  have "mset (map name (take i (active s) @ drop (Suc i) (active s))) + {#name (active s ! i)#}
        = mset (map name (active s))"
    using mset_remove_nth [of i "map name (active s)"] i
    by (simp add: take_map drop_map)
  then show ?thesis
    by (simp add: names_of_def s')
qed

lemma run_events_names: "run_events s evs = Some s' \<Longrightarrow> names_of s' = names_of s"
proof (induction evs arbitrary: s)
  case Nil
  then show ?case by simp
next
  case (Cons e es)
  then obtain s1 where "run_step s e = Some s1" and "run_events s1 es = Some s'"
    by (auto split: option.splits)
  then show ?case
    using Cons.IH [of s1] run_step_names [of s e s1] by simp
qed

lemma runChecks_on_names:
  assumes "runChecks_on cs evs = Some rs"
  shows "mset (map Name rs) = mset (map name cs)"
proof -
  from assms obtain s where run: "run_events \<lparr>todo = cs, active = [], collected = []\<rparr> evs = Some s"
    and fin: "todo s = []" "active s = []" and rs: "rs = collected s"
    by (auto simp: runChecks_on_def split: option.splits if_splits)
  from run_events_names [OF run] fin rs show ?thesis
    by (simp add: names_of_def)
qed

lemma checks_names_distinct: "distinct (map name checks)"
  by (simp add: checks_def)

lemma checks_length: "length checks = 10"
  by (simp add: checks_def)

text \<open>
  C1. Whatever the schedule, the batch that runChecks returns has ten results,
  as many as the catalogue has entries, and their names are the names of the
  catalogue, each once.
\<close>

theorem runChecks_batch_names:
  assumes "runChecks evs = Some rs"
  shows "length rs = 10 \<and> length rs = length checks
         \<and> mset (map Name rs) = mset (map name checks)
         \<and> distinct (map Name rs)
         \<and> set (map Name rs) = set (map name checks)"
proof -
  from assms have "runChecks_on checks evs = Some rs"
    by (simp add: runChecks_def)
  then have m: "mset (map Name rs) = mset (map name checks)"
    by (rule runChecks_on_names)
  from m have "length (map Name rs) = length (map name checks)"
    by (rule mset_eq_length)
  then have l: "length rs = length checks" by simp
  from m have d: "distinct (map Name rs)"
    using checks_names_distinct mset_eq_imp_distinct_iff by blast
  from m have s: "set (map Name rs) = set (map name checks)"
    by (rule mset_eq_setD)
  from l d s m checks_length show ?thesis by simp
qed

theorem runChecks_batch_names_witness:
  "runChecks sample_schedule \<noteq> None
   \<and> length (the (runChecks sample_schedule)) = 10
   \<and> distinct (map Name (the (runChecks sample_schedule)))
   \<and> set (map Name (the (runChecks sample_schedule))) = set (map name checks)"
proof -
  have r: "runChecks sample_schedule \<noteq> None" by code_simp
  then obtain rs where h: "runChecks sample_schedule = Some rs" by blast
  from runChecks_batch_names [OF h] h show ?thesis by simp
qed

section \<open>The shape of a formatted duration\<close>

lemma digitChar_isDigit: "isDigit (digitChar n)"
proof -
  have "n mod 10 < length ''0123456789''" by simp
  then have "''0123456789'' ! (n mod 10) \<in> set ''0123456789''"
    by (rule nth_mem)
  then show ?thesis
    by (simp only: digitChar_def isDigit_def)
qed

lemma formatNat_digits: "formatNat n \<noteq> [] \<and> (\<forall>c \<in> set (formatNat n). isDigit c)"
proof (induction n rule: formatNat.induct)
  case (1 n)
  show ?case
  proof (cases "n < 10")
    case True
    then show ?thesis
      by (subst formatNat.simps, subst formatNat.simps) (simp add: digitChar_isDigit)
  next
    case False
    with 1 show ?thesis
      by (subst formatNat.simps, subst (2) formatNat.simps) (simp add: digitChar_isDigit)
  qed
qed

lemma formatFixed2_shape:
  assumes "0 \<le> x"
  shows "\<exists>ip a b. formatFixed2 x = ip @ ''.'' @ [a, b] \<and> ip \<noteq> []
           \<and> (\<forall>c \<in> set ip. isDigit c) \<and> isDigit a \<and> isDigit b"
proof -
  define h where "h = nat (roundHalfEven (\<bar>x\<bar> * 100))"
  from assms have "formatFixed2 x = formatNat (h div 100) @ ''.'' @ [digitChar (h div 10), digitChar h]"
    by (simp add: formatFixed2_def h_def Let_def)
  then show ?thesis
    using formatNat_digits [of "h div 100"] digitChar_isDigit by blast
qed

lemma takeWhile_stop: "\<forall>c \<in> set xs. P c \<Longrightarrow> \<not> P y \<Longrightarrow> takeWhile P (xs @ y # ys) = xs"
  by (induction xs) auto

lemma dropWhile_stop: "\<forall>c \<in> set xs. P c \<Longrightarrow> \<not> P y \<Longrightarrow> dropWhile P (xs @ y # ys) = y # ys"
  by (induction xs) auto




section \<open>The messages of a batch\<close>

lemma check_worker_eq:
  "check_worker c oc el =
     (if snd (CombinedOutput oc) = None
      then \<lparr>Name = name c, Status = ''Passed'',
            Message = TrimSpace (fst (CombinedOutput oc)) @ '' ('' @ formatFixed2 el @ ''s)''\<rparr>
      else \<lparr>Name = name c, Status = ''Failed'',
            Message = errHint c @ '' ('' @ TrimSpace (fst (CombinedOutput oc)) @ '')''
                      @ '' ('' @ formatFixed2 el @ ''s)''\<rparr>)"
  by (cases oc) (simp_all add: check_worker_def runCommand_def)

lemma set_remove_nth: "set (take i xs @ drop (Suc i) xs) \<subseteq> set xs"
  by (auto dest: in_set_takeD in_set_dropD)

lemma run_step_collected:
  assumes "run_step s e = Some s'"
  shows "set (todo s') \<union> set (active s') \<subseteq> set (todo s) \<union> set (active s)
         \<and> (collected s' = collected s
            \<or> (\<exists>i oc el. e = Finish i oc el \<and> 0 \<le> el \<and> active s ! i \<in> set (active s)
                  \<and> collected s' = collected s @ [check_worker (active s ! i) oc el]))"
proof (cases e)
  case Launch
  with assms show ?thesis
    by (auto split: list.splits)
next
  case (Finish i oc el)
  with assms have i: "i < length (active s)" and el: "0 \<le> el"
    and s': "s' = s\<lparr>active := take i (active s) @ drop (Suc i) (active s),
                   collected := collected s @ [check_worker (active s ! i) oc el]\<rparr>"
    by (auto split: if_splits)
  from i have "active s ! i \<in> set (active s)" by simp
  with Finish el s' set_remove_nth [of i "active s"] show ?thesis
    by auto
qed

lemma run_events_collected:
  assumes "run_events s evs = Some s'" and "r \<in> set (collected s')"
  shows "r \<in> set (collected s)
         \<or> (\<exists>c i oc el. c \<in> set (todo s) \<union> set (active s) \<and> Finish i oc el \<in> set evs
               \<and> 0 \<le> el \<and> r = check_worker c oc el)"
  using assms
proof (induction evs arbitrary: s)
  case Nil
  then show ?case by simp
next
  case (Cons e es)
  then obtain s1 where st: "run_step s e = Some s1" and rest: "run_events s1 es = Some s'"
    by (auto split: option.splits)
  from Cons.IH [OF rest Cons.prems(2)]
  consider (old) "r \<in> set (collected s1)"
    | (new) c i oc el where "c \<in> set (todo s1) \<union> set (active s1)" "Finish i oc el \<in> set es"
        "0 \<le> el" "r = check_worker c oc el"
    by blast
  then show ?case
  proof cases
    case old
    from run_step_collected [OF st]
    consider (same) "collected s1 = collected s"
      | (app) i oc el where "e = Finish i oc el" "0 \<le> el" "active s ! i \<in> set (active s)"
          "collected s1 = collected s @ [check_worker (active s ! i) oc el]"
      by blast
    then show ?thesis
    proof cases
      case same
      with old show ?thesis by simp
    next
      case app
      show ?thesis
      proof (cases "r \<in> set (collected s)")
        case True
        then show ?thesis by simp
      next
        case False
        with old app(4) have "r = check_worker (active s ! i) oc el" by simp
        moreover have "Finish i oc el \<in> set (e # es)" using app(1) by simp
        ultimately show ?thesis using app(2,3) by blast
      qed
    qed
  next
    case new
    with run_step_collected [OF st] have "c \<in> set (todo s) \<union> set (active s)" by blast
    moreover have "Finish i oc el \<in> set (e # es)" using new(2) by simp
    ultimately show ?thesis using new(3,4) by blast
  qed
qed

lemma runChecks_on_produced:
  assumes "runChecks_on cs evs = Some rs" and "r \<in> set rs"
  shows "\<exists>c i oc el. c \<in> set cs \<and> Finish i oc el \<in> set evs \<and> 0 \<le> el \<and> r = check_worker c oc el"
proof -
  from assms obtain s where run: "run_events \<lparr>todo = cs, active = [], collected = []\<rparr> evs = Some s"
    and rs: "rs = collected s"
    by (auto simp: runChecks_on_def split: option.splits if_splits)
  from run_events_collected [OF run] assms(2) rs show ?thesis by simp
qed






lemma not_isDigit_dot: "\<not> isDigit CHR ''.''"
  by (simp add: isDigit_def)

lemma matchesDurationOnly_Sprintf:
  assumes "0 \<le> el"
  shows "matchesDurationOnly ('' ('' @ formatFixed2 el @ ''s)'')"
proof -
  from assms obtain ip a b where f: "formatFixed2 el = ip @ ''.'' @ [a, b]" and ne: "ip \<noteq> []"
    and all: "\<forall>c \<in> set ip. isDigit c" and a: "isDigit a" and b: "isDigit b"
    using formatFixed2_shape by blast
  have t: "takeWhile isDigit (ip @ CHR ''.'' # [a, b, CHR ''s'', CHR '')'']) = ip"
    using all not_isDigit_dot by (rule takeWhile_stop)
  have d: "dropWhile isDigit (ip @ CHR ''.'' # [a, b, CHR ''s'', CHR '')''])
           = CHR ''.'' # [a, b, CHR ''s'', CHR '')'']"
    using all not_isDigit_dot by (rule dropWhile_stop)
  have "'' ('' @ formatFixed2 el @ ''s)'' = CHR '' '' # CHR ''('' # (ip @ CHR ''.'' # [a, b, CHR ''s'', CHR '')''])"
    by (simp add: f)
  then show ?thesis
    unfolding matchesDurationOnly_def using t d ne a b by simp
qed

lemma TrimSpace_empty: "TrimSpace [] = []"
  by (simp add: TrimSpace_def TrimRightSpace_def)

text \<open>
  C4, as amended. For the catalogue of the single check A, whose command exits
  with status 0 and writes nothing, and whose hint is empty, the batch is
  exactly one result, with the name A, the status Passed and a message that is
  a space followed by the duration in parentheses, the unit s directly after
  the two decimals.
\<close>

theorem scenario_A_batch:
  assumes "runChecks_on scenarioA evs = Some rs"
    and "\<forall>i oc el. Finish i oc el \<in> set evs \<longrightarrow> oc = Exited 0 []"
  shows "\<exists>el. 0 \<le> el
           \<and> rs = [\<lparr>Name = ''A'', Status = ''Passed'', Message = '' ('' @ formatFixed2 el @ ''s)''\<rparr>]
           \<and> matchesDurationOnly (Message (hd rs))"
proof -
  from runChecks_on_names [OF assms(1)] have "mset (map Name rs) = {#''A''#}"
    by (simp add: scenarioA_def)
  then have "length (map Name rs) = 1"
    using mset_eq_length [of "map Name rs" "[''A'']"] by simp
  then obtain r where rs: "rs = [r]"
    by (cases rs) auto
  then have "r \<in> set rs" by simp
  from runChecks_on_produced [OF assms(1) this]
  obtain c i oc el where c: "c \<in> set scenarioA" and ev: "Finish i oc el \<in> set evs"
    and el: "0 \<le> el" and r: "r = check_worker c oc el"
    by blast
  from ev assms(2) have oc: "oc = Exited 0 []" by blast
  from c have c': "c = \<lparr>name = ''A'', cmd = ''true'', errHint = []\<rparr>"
    by (simp add: scenarioA_def)
  have r': "r = \<lparr>Name = ''A'', Status = ''Passed'', Message = '' ('' @ formatFixed2 el @ ''s)''\<rparr>"
    by (simp add: r oc c' check_worker_eq TrimSpace_empty)
  with rs el matchesDurationOnly_Sprintf [OF el] show ?thesis
    by auto
qed

theorem scenario_A_batch_witness:
  "runChecks_on scenarioA [Launch, Finish 0 (Exited 0 []) (1 / 4)]
     = Some [\<lparr>Name = ''A'', Status = ''Passed'', Message = '' (0.25s)''\<rparr>]
   \<and> matchesDurationOnly '' (0.25s)''"
proof -
  have h: "runChecks_on scenarioA [Launch, Finish 0 (Exited 0 []) (1 / 4)]
             = Some [\<lparr>Name = ''A'', Status = ''Passed'', Message = '' (0.25s)''\<rparr>]"
    by code_simp
  have "\<forall>i oc el. Finish i oc el \<in> set [Launch, Finish 0 (Exited 0 []) (1 / 4)] \<longrightarrow> oc = Exited 0 []"
    by simp
  from scenario_A_batch [OF h this] show ?thesis
    using h by auto
qed

text \<open>
  The pattern of the scenario as the specification writes it does not match
  that message: the message starts with a space, and no space stands before
  the unit.
\<close>

theorem scenario_A_counterexample:
  "runChecks_on scenarioA [Launch, Finish 0 (Exited 0 []) 0]
     = Some [\<lparr>Name = ''A'', Status = ''Passed'', Message = '' (0.00s)''\<rparr>]
   \<and> \<not> matchesSpecPattern '' (0.00s)''
   \<and> \<not> matchesSpecPattern ''(0.00s)''"
  by code_simp


section \<open>Messages of several lines\<close>

lemma Join_Cons: "Join (x # xs) sep = x @ concat (map (\<lambda>y. sep @ y) xs)"
  by (induction xs arbitrary: x) auto

lemma fold_update_length:
  "length (fold (\<lambda>i acc. acc[i := g i]) js acc) = length acc"
  by (induction js arbitrary: acc) auto

lemma fold_update_nth:
  "j < length acc \<Longrightarrow>
   fold (\<lambda>i acc. acc[i := g i]) js acc ! j = (if j \<in> set js then g j else acc ! j)"
  by (induction js arbitrary: acc) auto

lemma indentLines_eq:
  assumes "lines \<noteq> []"
  shows "indentLines lines = [] # map (\<lambda>l. ''        '' @ l) (tl lines)"
proof (rule nth_equalityI)
  show "length (indentLines lines) = length ([] # map (\<lambda>l. ''        '' @ l) (tl lines))"
    using assms by (simp add: indentLines_def fold_update_length)
next
  fix j assume "j < length (indentLines lines)"
  then have j: "j < length lines"
    by (simp add: indentLines_def fold_update_length)
  show "indentLines lines ! j = ([] # map (\<lambda>l. ''        '' @ l) (tl lines)) ! j"
  proof (cases j)
    case 0
    with j show ?thesis
      by (simp add: indentLines_def fold_update_nth)
  next
    case (Suc k)
    with j have "k < length (tl lines)" by simp
    then have "tl lines ! k = lines ! Suc k" by (rule nth_tl)
    with Suc j show ?thesis
      by (simp add: indentLines_def fold_update_nth)
  qed
qed

lemma Split_nonempty: "sep \<noteq> [] \<Longrightarrow> Split s sep \<noteq> []"
  by (subst Split.simps) (simp split: option.splits)

lemma Split_Contains:
  assumes "sep \<noteq> []" and "Contains s sep"
  shows "tl (Split s sep) \<noteq> []"
proof -
  from assms(2) obtain m where "Index s sep = Some m"
    by (auto simp: Contains_def)
  with assms(1) have "Split s sep = take m s # Split (drop (m + length sep) s) sep"
    by (subst Split.simps) simp
  with Split_nonempty [OF assms(1)] show ?thesis by simp
qed


lemma formatMessage_two_parts:
  assumes "Split msg '' ('' = [content, t]" and "Contains content [nl]"
  shows "formatMessage msg = Join (indentLines (Split content [nl])) [nl] @ '' ('' @ t"
  unfolding formatMessage_def Let_def using assms by simp

lemma Join_indentLines:
  assumes "lines \<noteq> []"
  shows "Join (indentLines lines) [nl] = concat (map (\<lambda>l. nl # ''        '' @ l) (tl lines))"
  unfolding indentLines_eq [OF assms] Join_Cons by (simp add: comp_def)

lemma Index_before_paren:
  "\<not> Contains a '' ('' \<Longrightarrow> Index (a @ '' ('' @ b) '' ('' = Some (length a)"
proof (induction a)
  case Nil
  then show ?case by simp
next
  case (Cons c a')
  from Cons.prems have np: "\<not> prefix '' ('' (c # a')" and nc: "\<not> Contains a' '' (''"
    by (auto simp: Contains_def split: if_splits)
  from np have "\<not> prefix '' ('' (c # a' @ '' ('' @ b)"
    by (cases a') auto
  with Cons.IH [OF nc] show ?case by simp
qed

lemma Split_once:
  assumes "\<not> Contains a '' (''" and "\<not> Contains b '' (''"
  shows "Split (a @ '' ('' @ b) '' ('' = [a, b]"
proof -
  define x where "x = a @ '' ('' @ b"
  from assms(2) have b: "Split b '' ('' = [b]"
    by (subst Split.simps) (simp add: Contains_def)
  have i: "Index x '' ('' = Some (length a)"
    unfolding x_def by (rule Index_before_paren [OF assms(1)])
  have "Split x '' ('' = take (length a) x # Split (drop (length a + length '' ('') x) '' (''"
    by (subst Split.simps) (simp add: i)
  also have "take (length a) x = a" by (simp add: x_def)
  also have "drop (length a + length '' ('') x = b" by (simp add: x_def)
  finally show ?thesis by (simp add: b x_def)
qed

lemma viewRow_message:
  "Styled (if Status r = ''Failed'' then errorStyle else successStyle) (formatMessage (Message r))
     \<in> set (viewRow r)"
  by (simp add: viewRow_def Let_def)

lemma View_tabular:
  assumes "\<not> quitting m" and "results m \<noteq> []" and "outputFormat \<noteq> ''json''"
  shows "View outputFormat m =
           Inr (Tabbed ([Styled titleStyle ''System Check Results:'', Text [nl], Text [nl]]
                        @ concat (map viewRow (results m))
                        @ [Text [nl],
                           Styled footerStyle (''Press '' @ [quote] @ ''q'' @ [quote] @ '' to quit''),
                           Text [nl]]))"
  using assms by (simp add: View_def Let_def)

lemma Index_prefix: "prefix sub s \<Longrightarrow> Index s sub = Some 0"
  by (cases s) auto

lemma Index_append_keep:
  "Index a sub = Some m \<Longrightarrow> m + length sub \<le> length a \<and> Index (a @ y) sub = Some m"
proof (induction a arbitrary: m)
  case Nil
  then show ?case by (simp add: Index_prefix split: if_splits)
next
  case (Cons c cs)
  show ?case
  proof (cases "prefix sub (c # cs)")
    case True
    with Cons.prems have "m = 0" by simp
    moreover from True have "length sub \<le> length (c # cs)" by (rule prefix_length_le)
    moreover from True have "prefix sub ((c # cs) @ y)" by (rule prefix_prefix)
    ultimately show ?thesis by simp
  next
    case False
    with Cons.prems obtain m' where m': "Index cs sub = Some m'" and m: "m = Suc m'"
      by auto
    from Cons.IH [OF m'] have le: "m' + length sub \<le> length cs"
      and ix: "Index (cs @ y) sub = Some m'" by simp_all
    have "\<not> prefix sub ((c # cs) @ y)"
    proof
      assume "prefix sub ((c # cs) @ y)"
      then have "prefix sub (c # cs) \<or> (\<exists>us. sub = (c # cs) @ us \<and> prefix us y)"
        by (simp only: prefix_append)
      with False obtain us where "sub = (c # cs) @ us" by blast
      then have "length (c # cs) \<le> length sub" by simp
      with le show False by simp
    qed
    with ix m le show ?thesis by simp
  qed
qed

lemma Contains_mid: "Contains (u @ sep @ v) sep"
proof (induction u)
  case Nil
  have "prefix sep (sep @ v)" by simp
  then have "Index (sep @ v) sep = Some 0" by (rule Index_prefix)
  then show ?case by (simp add: Contains_def)
next
  case (Cons c u)
  then show ?case by (auto simp: Contains_def)
qed

lemma Split_length_Contains:
  assumes "sep \<noteq> []" and "Contains s sep"
  shows "2 \<le> length (Split s sep)"
proof -
  from Split_Contains [OF assms] Split_nonempty [OF assms(1), of s] show ?thesis
    by (cases "Split s sep") (auto simp: Suc_le_eq)
qed

lemma Split_three:
  assumes "sep \<noteq> []" and "Contains body sep"
  shows "3 \<le> length (Split (body @ sep @ t) sep)"
proof -
  define x where "x = body @ sep @ t"
  from assms(2) obtain m where m: "Index body sep = Some m"
    by (auto simp: Contains_def)
  from Index_append_keep [OF m, of "sep @ t"]
  have le: "m + length sep \<le> length body" and ix: "Index x sep = Some m"
    by (simp_all add: x_def)
  from le have d: "drop (m + length sep) x = drop (m + length sep) body @ sep @ t"
    by (simp add: x_def)
  have "Split x sep = take m x # Split (drop (m + length sep) x) sep"
    using assms(1) by (subst Split.simps) (simp add: ix)
  moreover have "2 \<le> length (Split (drop (m + length sep) x) sep)"
    unfolding d using assms(1) Contains_mid by (rule Split_length_Contains)
  ultimately show ?thesis by (simp add: x_def)
qed

lemma formatMessage_unchanged:
  "length (Split msg '' ('') \<noteq> 2 \<Longrightarrow> formatMessage msg = msg"
  by (simp add: formatMessage_def Let_def)

lemma formatMessage_paren_in_body:
  assumes "Contains body '' (''"
  shows "formatMessage (body @ '' ('' @ t) = body @ '' ('' @ t"
proof -
  have "3 \<le> length (Split (body @ '' ('' @ t) '' ('')"
    using _ assms by (rule Split_three) simp
  then have "length (Split (body @ '' ('' @ t) '' ('') \<noteq> 2" by simp
  then show ?thesis by (rule formatMessage_unchanged)
qed

lemma formatMessage_no_paren:
  assumes "\<not> Contains msg '' (''"
  shows "formatMessage msg = msg"
proof -
  from assms have "Split msg '' ('' = [msg]"
    by (subst Split.simps) (simp add: Contains_def)
  then have "length (Split msg '' ('') \<noteq> 2" by simp
  then show ?thesis by (rule formatMessage_unchanged)
qed

lemma formatMessage_Failed:
  assumes "Status (check_worker c oc el) = ''Failed''"
  shows "formatMessage (Message (check_worker c oc el)) = Message (check_worker c oc el)"
proof -
  from assms have "Message (check_worker c oc el)
      = (errHint c @ '' ('' @ (TrimSpace (fst (CombinedOutput oc)) @ '')''))
        @ '' ('' @ (formatFixed2 el @ ''s)'')"
    by (simp add: check_worker_eq split: if_splits)
  moreover have "Contains (errHint c @ '' ('' @ (TrimSpace (fst (CombinedOutput oc)) @ '')'')) '' (''"
    by (rule Contains_mid)
  ultimately show ?thesis
    by (simp only: formatMessage_paren_in_body)
qed


text \<open>
  C5, as amended. In the tabular render, the row of every result carries its
  message as formatMessage returns it, in the style of its status. When the
  body of the message, the text before the timing suffix, holds no space
  followed by an opening parenthesis and spans several lines, every line after
  the first is put on a line of its own behind eight spaces, in order, and the
  timing suffix follows the last of them after one space. When the body holds
  a space followed by an opening parenthesis, as the body of every failed
  result does, the message is rendered unchanged: no line is indented, and the
  timing suffix stays at the end of the last line. A message without a space
  followed by an opening parenthesis is rendered unchanged as well.
\<close>

theorem View_multiline_message:
  assumes "\<not> quitting m" and "outputFormat \<noteq> ''json''" and "r \<in> set (results m)"
  shows "(\<exists>w. View outputFormat m = Inr (Tabbed w)
             \<and> Styled (if Status r = ''Failed'' then errorStyle else successStyle)
                  (formatMessage (Message r)) \<in> set w)
         \<and> (Message r = body @ '' ('' @ t \<and> \<not> Contains body '' ('' \<and> \<not> Contains t '' (''
              \<and> Contains body [nl] \<longrightarrow>
              tl (Split body [nl]) \<noteq> []
              \<and> (\<exists>first. nl \<notin> set first
                    \<and> formatMessage (Message r)
                        = first @ concat (map (\<lambda>l. nl # ''        '' @ l) (tl (Split body [nl])))
                          @ '' ('' @ t))
         \<and> (Message r = body @ '' ('' @ t \<and> Contains body '' ('' \<longrightarrow>
              formatMessage (Message r) = Message r)
         \<and> (r = check_worker c oc el \<and> Status r = ''Failed'' \<longrightarrow>
              formatMessage (Message r) = Message r)
         \<and> (\<not> Contains (Message r) '' ('' \<longrightarrow> formatMessage (Message r) = Message r)"
proof -
  from assms(3) have "results m \<noteq> []" by auto
  from View_tabular [OF assms(1) this assms(2)] viewRow_message [of r] assms(3)
  have v: "\<exists>w. View outputFormat m = Inr (Tabbed w)
             \<and> Styled (if Status r = ''Failed'' then errorStyle else successStyle)
                  (formatMessage (Message r)) \<in> set w"
    by auto
  have a: "Message r = body @ '' ('' @ t \<and> \<not> Contains body '' ('' \<and> \<not> Contains t '' (''
              \<and> Contains body [nl] \<longrightarrow>
              tl (Split body [nl]) \<noteq> []
              \<and> (\<exists>first. nl \<notin> set first
                    \<and> formatMessage (Message r)
                        = first @ concat (map (\<lambda>l. nl # ''        '' @ l) (tl (Split body [nl])))
                          @ '' ('' @ t)"
  proof
    assume h: "Message r = body @ '' ('' @ t \<and> \<not> Contains body '' ('' \<and> \<not> Contains t '' (''
              \<and> Contains body [nl]"
    then have msg: "Message r = body @ '' ('' @ t" and nb: "\<not> Contains body '' (''"
      and nt: "\<not> Contains t '' (''" and ml: "Contains body [nl]"
      by simp_all
    have sp: "Split (Message r) '' ('' = [body, t]"
      unfolding msg using nb nt by (rule Split_once)
    have ne: "Split body [nl] \<noteq> []" by (rule Split_nonempty) simp
    have tl: "tl (Split body [nl]) \<noteq> []" using ml by (intro Split_Contains) simp
    have eq: "formatMessage (Message r)
        = [] @ concat (map (\<lambda>l. nl # ''        '' @ l) (tl (Split body [nl]))) @ '' ('' @ t"
      unfolding formatMessage_two_parts [OF sp ml] Join_indentLines [OF ne] by simp
    have "nl \<notin> set ([] :: string)" by simp
    with eq have "\<exists>first. nl \<notin> set first \<and> formatMessage (Message r)
        = first @ concat (map (\<lambda>l. nl # ''        '' @ l) (tl (Split body [nl]))) @ '' ('' @ t"
      by blast
    with tl show "tl (Split body [nl]) \<noteq> []
              \<and> (\<exists>first. nl \<notin> set first
                    \<and> formatMessage (Message r)
                        = first @ concat (map (\<lambda>l. nl # ''        '' @ l) (tl (Split body [nl])))
                          @ '' ('' @ t)"
      by blast
  qed
  have b: "Message r = body @ '' ('' @ t \<and> Contains body '' ('' \<longrightarrow>
              formatMessage (Message r) = Message r"
    using formatMessage_paren_in_body [of body t] by auto
  have c: "r = check_worker c oc el \<and> Status r = ''Failed'' \<longrightarrow>
              formatMessage (Message r) = Message r"
    using formatMessage_Failed [of c oc el] by auto
  have d: "\<not> Contains (Message r) '' ('' \<longrightarrow> formatMessage (Message r) = Message r"
    using formatMessage_no_paren [of "Message r"] by auto
  from v a b c d show ?thesis by blast
qed

lemma sample_multiline_eq:
  "sample_multiline = \<lparr>Name = ''Memory Usage'', Status = ''Passed'',
      Message = (''total'' @ [nl] @ ''Mem: 1'' @ [nl] @ ''Swap: 0'') @ '' ('' @ ''0.25s)''\<rparr>"
  by code_simp

lemma sample_failed_eq:
  "sample_failed = \<lparr>Name = ''Cron Jobs'', Status = ''Failed'',
      Message = (''No cron jobs found for the current user. (no crontab'' @ [nl] @ ''for root)'')
                @ '' ('' @ ''0.25s)''\<rparr>"
  by code_simp

theorem View_multiline_message_witness:
  "\<not> quitting sample_display \<and> [] \<noteq> ''json'' \<and> sample_multiline \<in> set (results sample_display)
   \<and> Message sample_multiline = (''total'' @ [nl] @ ''Mem: 1'' @ [nl] @ ''Swap: 0'') @ '' ('' @ ''0.25s)''
   \<and> \<not> Contains (''total'' @ [nl] @ ''Mem: 1'' @ [nl] @ ''Swap: 0'') '' (''
   \<and> \<not> Contains ''0.25s)'' '' (''
   \<and> Contains (''total'' @ [nl] @ ''Mem: 1'' @ [nl] @ ''Swap: 0'') [nl]
   \<and> tl (Split (''total'' @ [nl] @ ''Mem: 1'' @ [nl] @ ''Swap: 0'') [nl]) = [''Mem: 1'', ''Swap: 0'']
   \<and> (\<exists>first. nl \<notin> set first
         \<and> formatMessage (Message sample_multiline)
             = first @ (nl # ''        Mem: 1'') @ (nl # ''        Swap: 0'') @ '' (0.25s)'')
   \<and> \<not> quitting sample_failed_display \<and> sample_failed \<in> set (results sample_failed_display)
   \<and> Message sample_failed
       = (''No cron jobs found for the current user. (no crontab'' @ [nl] @ ''for root)'')
         @ '' ('' @ ''0.25s)''
   \<and> Contains (''No cron jobs found for the current user. (no crontab'' @ [nl] @ ''for root)'') '' (''
   \<and> Status sample_failed = ''Failed''
   \<and> formatMessage (Message sample_failed) = Message sample_failed"
proof -
  have a1: "\<not> quitting sample_display" by (simp add: sample_display_def)
  have a2: "[] \<noteq> ''json''" by simp
  have a3: "sample_multiline \<in> set (results sample_display)" by (simp add: sample_display_def)
  have a4: "Message sample_multiline
            = (''total'' @ [nl] @ ''Mem: 1'' @ [nl] @ ''Swap: 0'') @ '' ('' @ ''0.25s)''"
    by (simp add: sample_multiline_eq)
  have a5: "\<not> Contains (''total'' @ [nl] @ ''Mem: 1'' @ [nl] @ ''Swap: 0'') '' (''" by code_simp
  have a6: "\<not> Contains ''0.25s)'' '' (''" by code_simp
  have a7: "Contains (''total'' @ [nl] @ ''Mem: 1'' @ [nl] @ ''Swap: 0'') [nl]" by code_simp
  have sp: "tl (Split (''total'' @ [nl] @ ''Mem: 1'' @ [nl] @ ''Swap: 0'') [nl]) = [''Mem: 1'', ''Swap: 0'']"
    by code_simp
  have b1: "\<not> quitting sample_failed_display" by (simp add: sample_failed_display_def)
  have b3: "sample_failed \<in> set (results sample_failed_display)"
    by (simp add: sample_failed_display_def)
  have b4: "Message sample_failed
       = (''No cron jobs found for the current user. (no crontab'' @ [nl] @ ''for root)'')
         @ '' ('' @ ''0.25s)''"
    by (simp add: sample_failed_eq)
  have b5: "Contains (''No cron jobs found for the current user. (no crontab'' @ [nl] @ ''for root)'') '' (''"
    by code_simp
  have b6: "Status sample_failed = ''Failed''" by (simp add: sample_failed_eq)
  from View_multiline_message [OF a1 a2 a3,
      of "''total'' @ [nl] @ ''Mem: 1'' @ [nl] @ ''Swap: 0''" "''0.25s)''"] a4 a5 a6 a7 sp
  have p: "\<exists>first. nl \<notin> set first
         \<and> formatMessage (Message sample_multiline)
             = first @ (nl # ''        Mem: 1'') @ (nl # ''        Swap: 0'') @ '' (0.25s)''"
    by simp
  from View_multiline_message [OF b1 a2 b3,
      of "''No cron jobs found for the current user. (no crontab'' @ [nl] @ ''for root)''" "''0.25s)''"]
    b4 b5
  have q: "formatMessage (Message sample_failed) = Message sample_failed"
    by blast
  from a1 a2 a3 a4 a5 a6 a7 sp p b1 b3 b4 b5 b6 q show ?thesis by blast
qed

text \<open>
  The rendered message of a passed check with three lines of output: its
  first line is empty, and the timing suffix stands on its last line. The
  rendered message of a failed check with two lines of output: it is the
  message itself, its second line not indented; so is that of a passed check
  whose output holds a space followed by an opening parenthesis.
\<close>

theorem View_multiline_counterexample:
  "Message sample_multiline = ''total'' @ [nl] @ ''Mem: 1'' @ [nl] @ ''Swap: 0 (0.25s)''
   \<and> View [] sample_display
       = Inr (Tabbed
           [Styled titleStyle ''System Check Results:'', Text [nl], Text [nl],
            Styled successStyle [CHR 0xE2, CHR 0x9C, CHR 0x94], Text [tab],
            Text (''Memory Usage'' @ [tab]), Text [tab],
            Styled successStyle (formatMessage (Message sample_multiline)), Text [nl],
            Text [nl],
            Styled footerStyle (''Press '' @ [quote] @ ''q'' @ [quote] @ '' to quit''), Text [nl]])
   \<and> Split (formatMessage (Message sample_multiline)) [nl]
       = [[], ''        Mem: 1'', ''        Swap: 0 (0.25s)'']
   \<and> Message sample_failed
       = ''No cron jobs found for the current user. (no crontab'' @ [nl] @ ''for root) (0.25s)''
   \<and> View [] sample_failed_display
       = Inr (Tabbed
           [Styled titleStyle ''System Check Results:'', Text [nl], Text [nl],
            Styled errorStyle [CHR 0xE2, CHR 0x9C, CHR 0x98], Text [tab],
            Text (''Cron Jobs'' @ [tab]), Text [tab],
            Styled errorStyle (formatMessage (Message sample_failed)), Text [nl],
            Text [nl],
            Styled footerStyle (''Press '' @ [quote] @ ''q'' @ [quote] @ '' to quit''), Text [nl]])
   \<and> Split (formatMessage (Message sample_failed)) [nl]
       = [''No cron jobs found for the current user. (no crontab'', ''for root) (0.25s)'']
   \<and> Status sample_paren = ''Passed''
   \<and> Message sample_paren = ''Filesystem (dev)'' @ [nl] @ ''/dev/sda1 (0.25s)''
   \<and> Split (formatMessage (Message sample_paren)) [nl]
       = [''Filesystem (dev)'', ''/dev/sda1 (0.25s)'']"
  by code_simp

section \<open>The spinner index\<close>

lemma length_spinnerFrames: "length spinnerFrames = 10"
  by (simp add: spinnerFrames_def)

lemma goInt_small: "0 \<le> x \<Longrightarrow> x < 10 \<Longrightarrow> goInt (x + 1) = x + 1"
  by (simp add: goInt_def)

lemma Update_spinner_range:
  assumes "0 \<le> spinner m" and "spinner m < 10"
  shows "0 \<le> spinner (fst (Update m x)) \<and> spinner (fst (Update m x)) < 10"
proof (cases x)
  case tickMsg
  have "(spinner m + 1) smod 10 = (spinner m + 1) mod 10"
    using assms by (simp add: signed_modulo_int_def)
  with tickMsg assms show ?thesis
    by (simp add: goInt_small length_spinnerFrames)
qed (use assms in auto)

lemma Update_spinner_other: "x \<noteq> tickMsg \<Longrightarrow> spinner (fst (Update m x)) = spinner m"
  by (cases x) auto

lemma updates_spinner_range:
  "0 \<le> spinner m \<Longrightarrow> spinner m < 10
   \<Longrightarrow> 0 \<le> spinner (updates m xs) \<and> spinner (updates m xs) < 10"
proof (induction xs arbitrary: m)
  case Nil
  then show ?case by simp
next
  case (Cons x xs)
  from Update_spinner_range [OF Cons.prems, of x] Cons.IH [of "fst (Update m x)"]
  show ?case by simp
qed

lemma View_no_panic:
  "0 \<le> spinner m \<Longrightarrow> spinner m < 10 \<Longrightarrow> View outputFormat m \<noteq> Inl IndexOutOfRange"
  by (simp add: View_def Let_def length_spinnerFrames)

text \<open>
  C10. After any sequence of messages has gone through Update from the initial
  model, the spinner field is at least 0 and less than the number of frames,
  so View does not index the frames out of range. A tick sets the field to its
  successor modulo the number of frames, and no other message changes it.
\<close>

theorem spinner_in_range:
  "0 \<le> spinner (updates model0 msgs)
   \<and> spinner (updates model0 msgs) < int (length spinnerFrames)
   \<and> View outputFormat (updates model0 msgs) \<noteq> Inl IndexOutOfRange
   \<and> spinner (fst (Update m tickMsg)) = goInt (spinner m + 1) smod int (length spinnerFrames)
   \<and> (x \<noteq> tickMsg \<longrightarrow> spinner (fst (Update m x)) = spinner m)"
proof -
  have r: "0 \<le> spinner (updates model0 msgs) \<and> spinner (updates model0 msgs) < 10"
    by (rule updates_spinner_range) (simp_all add: model0_def)
  with View_no_panic [of "updates model0 msgs" outputFormat]
  have "View outputFormat (updates model0 msgs) \<noteq> Inl IndexOutOfRange" by simp
  with r Update_spinner_other [of x m] show ?thesis
    by (simp add: length_spinnerFrames)
qed

theorem spinner_in_range_witness:
  "spinner (updates model0 (replicate 12 tickMsg @ [KeyMsg ''x'', otherMsg])) = 2
   \<and> View [] (updates model0 (replicate 12 tickMsg @ [KeyMsg ''x'', otherMsg]))
       = Inr (Direct [Styled loadingStyle
            (''Performing system checks... '' @ [CHR 0xE2, CHR 0xA0, CHR 0xB9] @ [nl])])
   \<and> KeyMsg ''x'' \<noteq> tickMsg
   \<and> spinner (fst (Update model0 (KeyMsg ''x''))) = spinner model0"
proof -
  have a: "spinner (updates model0 (replicate 12 tickMsg @ [KeyMsg ''x'', otherMsg])) = 2"
    by code_simp
  have b: "View [] (updates model0 (replicate 12 tickMsg @ [KeyMsg ''x'', otherMsg]))
       = Inr (Direct [Styled loadingStyle
            (''Performing system checks... '' @ [CHR 0xE2, CHR 0xA0, CHR 0xB9] @ [nl])])"
    by code_simp
  from spinner_in_range [where msgs = "replicate 12 tickMsg @ [KeyMsg ''x'', otherMsg]"
      and outputFormat = "[]" and x = "KeyMsg ''x''" and m = model0] a b
  show ?thesis
    by simp
qed


section \<open>The event loop before and after the batch\<close>

lemma Update_results:
  "(\<forall>rs. x \<noteq> checkResultsMsg rs) \<Longrightarrow> results (fst (Update m x)) = results m"
  by (cases x) auto

lemma deliver_fields:
  "mdl (deliver s x) = fst (Update (mdl s) x) \<and> delivered (deliver s x) = delivered s
   \<and> stopped (deliver s x) = stopped s"
  by (simp add: deliver_def split: prod.split)

lemma deliver_inv:
  assumes "loop_inv s" and "\<forall>rs. x \<noteq> checkResultsMsg rs"
  shows "loop_inv (deliver s x)"
  using assms Update_spinner_range [of "mdl s" x] Update_results [of x "mdl s"]
  by (simp add: loop_inv_def deliver_fields)

lemma deliver_batch_inv:
  assumes "loop_inv s" and "runChecks sched = Some rs"
  shows "loop_inv (deliver (s\<lparr>pending := ps, delivered := True\<rparr>) (checkResultsMsg rs))"
proof -
  from assms(2) have "\<exists>sched. runChecks sched = Some rs" by blast
  with assms(1) show ?thesis
    by (simp add: loop_inv_def deliver_def)
qed

lemma complete_inv:
  assumes "loop_inv s" and "complete s i sched = Some s'"
  shows "loop_inv s'"
proof -
  from assms(2) have i: "i < length (pending s)"
    by (simp add: complete_def split: if_splits)
  define ps where "ps = take i (pending s) @ drop (Suc i) (pending s)"
  have inv': "loop_inv (s\<lparr>pending := ps\<rparr>)"
    using assms(1) by (simp add: loop_inv_def)
  show ?thesis
  proof (cases "pending s ! i")
    case RunChecksCmd
    with assms(2) i obtain rs where rs: "runChecks sched = Some rs"
      and s': "s' = deliver (s\<lparr>pending := ps, delivered := True\<rparr>) (checkResultsMsg rs)"
      by (auto simp: complete_def Let_def ps_def split: option.splits)
    from deliver_batch_inv [OF assms(1) rs] s' show ?thesis by simp
  next
    case QuitMsgCmd
    with assms(2) i have "s' = deliver (s\<lparr>pending := ps\<rparr>) quitMsg"
      by (simp add: complete_def Let_def ps_def)
    with deliver_inv [OF inv', of quitMsg] show ?thesis by simp
  next
    case (Tick d)
    with assms(2) i have "s' = deliver (s\<lparr>pending := ps\<rparr>) tickMsg"
      by (simp add: complete_def Let_def ps_def)
    with deliver_inv [OF inv', of tickMsg] show ?thesis by simp
  next
    case Quit
    with assms(2) i have "s' = s\<lparr>pending := ps, stopped := True\<rparr>"
      by (simp add: complete_def Let_def ps_def)
    with assms(1) show ?thesis by (simp add: loop_inv_def)
  qed
qed

lemma loop_step_inv:
  assumes "loop_inv s" and "loop_step s e = Some s'"
  shows "loop_inv s'"
proof (cases e)
  case (KeyPress k)
  with assms(2) have "s' = deliver s (KeyMsg k)" by (simp split: if_splits)
  with deliver_inv [OF assms(1), of "KeyMsg k"] show ?thesis by simp
next
  case Other
  with assms(2) have "s' = deliver s otherMsg" by (simp split: if_splits)
  with deliver_inv [OF assms(1), of otherMsg] show ?thesis by simp
next
  case (Complete i sched)
  with assms(2) have "complete s i sched = Some s'" by (simp split: if_splits)
  with complete_inv [OF assms(1)] show ?thesis by simp
qed

lemma loop_run_inv:
  "loop_inv s \<Longrightarrow> loop_run s evs = Some s' \<Longrightarrow> loop_inv s'"
proof (induction evs arbitrary: s)
  case Nil
  then show ?case by simp
next
  case (Cons e es)
  from Cons.prems(2) obtain s1 where st: "loop_step s e = Some s1" and rest: "loop_run s1 es = Some s'"
    by (auto split: option.splits)
  from loop_step_inv [OF Cons.prems(1) st] have "loop_inv s1" .
  from Cons.IH [OF this rest] show ?case .
qed

lemma loop_init_inv: "loop_inv loop_init"
  by (simp add: loop_inv_def loop_init_def model0_def)

text \<open>
  C6, as amended. In every state the event loop reaches before the batch
  message has been delivered, the model holds no result, and View renders the
  loading indicator, or the exit notice once the quitting flag is set; it
  renders neither the table nor the JSON document. Once the batch message has
  been delivered, the model holds a batch that runChecks returned.
\<close>

theorem View_before_batch:
  assumes "loop_run loop_init evs = Some s"
  shows "(\<not> delivered s \<longrightarrow>
            results (mdl s) = []
            \<and> View outputFormat (mdl s)
                = Inr (if quitting (mdl s) then exitScreen else loadingScreen (mdl s))
            \<and> (\<forall>w. View outputFormat (mdl s) \<noteq> Inr (Tabbed w))
            \<and> (\<forall>rs. View outputFormat (mdl s) \<noteq> Inr (IndentedJson rs)))
         \<and> (delivered s \<longrightarrow> (\<exists>sched. runChecks sched = Some (results (mdl s))))"
proof -
  from loop_run_inv [OF loop_init_inv assms]
  have sp: "0 \<le> spinner (mdl s)" "spinner (mdl s) < 10"
    and r: "\<not> delivered s \<longrightarrow> results (mdl s) = []"
    and d: "delivered s \<longrightarrow> (\<exists>sched. runChecks sched = Some (results (mdl s)))"
    by (simp_all add: loop_inv_def)
  have "results (mdl s) = [] \<longrightarrow> View outputFormat (mdl s)
             = Inr (if quitting (mdl s) then exitScreen else loadingScreen (mdl s))"
    using sp by (simp add: View_def exitScreen_def loadingScreen_def length_spinnerFrames)
  with r have v: "\<not> delivered s \<longrightarrow> View outputFormat (mdl s)
             = Inr (if quitting (mdl s) then exitScreen else loadingScreen (mdl s))"
    by blast
  then have "\<not> delivered s \<longrightarrow> (\<forall>w. View outputFormat (mdl s) \<noteq> Inr (Tabbed w))
         \<and> (\<forall>rs. View outputFormat (mdl s) \<noteq> Inr (IndentedJson rs))"
    by (simp add: exitScreen_def loadingScreen_def)
  with r v d show ?thesis by blast
qed

theorem View_before_batch_witness:
  "loop_run loop_init [Other, Complete 1 [], KeyPress ''x'']
     = Some \<lparr>mdl = \<lparr>results = [], quitting = False, spinner = 1\<rparr>,
             pending = [RunChecksCmd, Tick 100, Tick 100], delivered = False, stopped = False\<rparr>
   \<and> View [] \<lparr>results = [], quitting = False, spinner = 1\<rparr>
       = Inr (loadingScreen \<lparr>results = [], quitting = False, spinner = 1\<rparr>)
   \<and> loop_run loop_init [Complete 0 sample_schedule] \<noteq> None
   \<and> delivered (the (loop_run loop_init [Complete 0 sample_schedule]))
   \<and> (\<exists>sched. runChecks sched
         = Some (results (mdl (the (loop_run loop_init [Complete 0 sample_schedule])))))"
proof -
  have h: "loop_run loop_init [Other, Complete 1 [], KeyPress ''x'']
     = Some \<lparr>mdl = \<lparr>results = [], quitting = False, spinner = 1\<rparr>,
             pending = [RunChecksCmd, Tick 100, Tick 100], delivered = False, stopped = False\<rparr>"
    by code_simp
  have "loop_run loop_init [Complete 0 sample_schedule] \<noteq> None" by code_simp
  then obtain s where g: "loop_run loop_init [Complete 0 sample_schedule] = Some s" by blast
  have "delivered (the (loop_run loop_init [Complete 0 sample_schedule]))" by code_simp
  with g have d: "delivered s" by simp
  from View_before_batch [OF h, of "[]"] View_before_batch [OF g, of "[]"] h g d
  show ?thesis by simp
qed

text \<open>
  The key q and then the quit message, both before the batch: the state is
  reached with the batch outstanding, and View renders the exit notice, which
  is not the loading indicator.
\<close>

theorem View_before_batch_counterexample:
  "loop_run loop_init [KeyPress ''q'', Complete 1 []]
     = Some \<lparr>mdl = \<lparr>results = [], quitting = True, spinner = 0\<rparr>,
             pending = [RunChecksCmd, Quit], delivered = False, stopped = False\<rparr>
   \<and> View [] \<lparr>results = [], quitting = True, spinner = 0\<rparr> = Inr exitScreen
   \<and> exitScreen \<noteq> loadingScreen \<lparr>results = [], quitting = True, spinner = 0\<rparr>"
  by code_simp

lemma silent_no_tick: "set cs \<subseteq> {RunChecksCmd, QuitMsgCmd, Quit} \<Longrightarrow> \<not> schedulesTick cs"
  by (induction cs rule: schedulesTick.induct) auto

lemma schedulesTick_append: "schedulesTick (cs @ [Tick d])"
  by (induction cs rule: schedulesTick.induct) auto

lemma loop_step_silent:
  assumes "silent s" and "silentEvent e" and "loop_step s e = Some s'"
  shows "silent s'"
proof (cases e)
  case (KeyPress k)
  with assms(2) have "k = ''q''" by simp
  with KeyPress assms(3) have "s' = deliver s (KeyMsg ''q'')" by (simp split: if_splits)
  with assms(1) show ?thesis by (simp add: silent_def deliver_def)
next
  case Other
  with assms(2) show ?thesis by simp
next
  case (Complete i sched)
  with assms(3) have c: "complete s i sched = Some s'" by (simp split: if_splits)
  then have i: "i < length (pending s)"
    by (simp add: complete_def split: if_splits)
  define ps where "ps = take i (pending s) @ drop (Suc i) (pending s)"
  have sub: "set ps \<subseteq> {RunChecksCmd, QuitMsgCmd, Quit}"
    using assms(1) set_remove_nth [of i "pending s"] by (auto simp: silent_def ps_def)
  from i have "pending s ! i \<in> set (pending s)" by (rule nth_mem)
  with assms(1) have nt: "\<forall>d. pending s ! i \<noteq> Tick d"
    by (auto simp: silent_def)
  show ?thesis
  proof (cases "pending s ! i")
    case RunChecksCmd
    with c i obtain rs where
      "s' = deliver (s\<lparr>pending := ps, delivered := True\<rparr>) (checkResultsMsg rs)"
      by (auto simp: complete_def Let_def ps_def split: option.splits)
    with assms(1) sub show ?thesis by (simp add: silent_def deliver_def)
  next
    case QuitMsgCmd
    with c i have "s' = deliver (s\<lparr>pending := ps\<rparr>) quitMsg"
      by (simp add: complete_def Let_def ps_def)
    with assms(1) sub show ?thesis by (simp add: silent_def deliver_def)
  next
    case (Tick d)
    with nt show ?thesis by simp
  next
    case Quit
    with c i have "s' = s\<lparr>pending := ps, stopped := True\<rparr>"
      by (simp add: complete_def Let_def ps_def)
    with assms(1) sub show ?thesis by (simp add: silent_def)
  qed
qed

lemma loop_run_silent:
  "silent s \<Longrightarrow> \<forall>e \<in> set evs. silentEvent e \<Longrightarrow> loop_run s evs = Some s' \<Longrightarrow> silent s'"
proof (induction evs arbitrary: s)
  case Nil
  then show ?case by simp
next
  case (Cons e es)
  from Cons.prems(3) obtain s1 where st: "loop_step s e = Some s1" and rest: "loop_run s1 es = Some s'"
    by (auto split: option.splits)
  from Cons.prems(2) have e: "silentEvent e" and es: "\<forall>e \<in> set es. silentEvent e"
    by simp_all
  from loop_step_silent [OF Cons.prems(1) e st] have "silent s1" .
  from Cons.IH [OF this es rest] show ?case .
qed

lemma loop_init_silent: "silent loop_init"
  by (simp add: silent_def loop_init_def model0_def Init_def)

lemma loop_run_snoc:
  "loop_run s (evs @ [e]) = (case loop_run s evs of None \<Rightarrow> None | Some s1 \<Rightarrow> loop_step s1 e)"
  by (induction evs arbitrary: s) (auto split: option.splits)

lemma loop_step_wakes:
  assumes "\<not> silentEvent e" and "loop_step s e = Some s'"
  shows "schedulesTick (pending s')"
proof (cases e)
  case (KeyPress k)
  with assms have "k \<noteq> ''q''" and "s' = deliver s (KeyMsg k)" by (simp_all split: if_splits)
  then show ?thesis by (simp add: deliver_def schedulesTick_append)
next
  case Other
  with assms have "s' = deliver s otherMsg" by (simp split: if_splits)
  then show ?thesis by (simp add: deliver_def schedulesTick_append)
next
  case (Complete i sched)
  with assms(1) show ?thesis by simp
qed

lemma Update_tick_iff:
  "(\<exists>d. snd (Update m x) = Some (Tick d))
     = (x \<noteq> KeyMsg ''q'' \<and> x \<noteq> quitMsg \<and> (\<forall>rs. x \<noteq> checkResultsMsg rs))"
  by (cases x) auto

text \<open>
  C7, as amended. Init returns the one command that runs the checks and
  produces the batch message; it schedules no tick. Update returns a tick
  exactly for a message that is not the batch, the key q or the quit message:
  for any other key, a message of another type, or a tick. As long as the
  only events are completions of running commands and the key q, no tick is
  scheduled and the spinner stays at its first frame; the first other event
  schedules a tick.
\<close>

theorem Init_schedules_no_tick:
  "Init m = RunChecksCmd
   \<and> pending loop_init = [RunChecksCmd]
   \<and> (loop_run loop_init evs = Some s \<and> (\<forall>e \<in> set evs. silentEvent e)
        \<longrightarrow> spinner (mdl s) = 0 \<and> \<not> schedulesTick (pending s))
   \<and> (loop_run loop_init (evs @ [e]) = Some s' \<and> (\<forall>e \<in> set evs. silentEvent e)
        \<and> \<not> silentEvent e \<longrightarrow> schedulesTick (pending s'))
   \<and> ((\<exists>d. snd (Update m x) = Some (Tick d))
        = (x \<noteq> KeyMsg ''q'' \<and> x \<noteq> quitMsg \<and> (\<forall>rs. x \<noteq> checkResultsMsg rs)))
   \<and> snd (Update m (checkResultsMsg rs)) = None
   \<and> snd (Update m (KeyMsg ''q'')) = Some QuitMsgCmd
   \<and> snd (Update m quitMsg) = Some Quit
   \<and> (k \<noteq> ''q'' \<longrightarrow> snd (Update m (KeyMsg k)) = Some (Tick 100))
   \<and> snd (Update m otherMsg) = Some (Tick 100)
   \<and> snd (Update m tickMsg) = Some (Tick 100)"
proof -
  have a: "loop_run loop_init evs = Some s \<and> (\<forall>e \<in> set evs. silentEvent e)
        \<longrightarrow> spinner (mdl s) = 0 \<and> \<not> schedulesTick (pending s)"
    using loop_run_silent [OF loop_init_silent, of evs s] silent_no_tick [of "pending s"]
    by (auto simp: silent_def)
  have b: "loop_run loop_init (evs @ [e]) = Some s' \<and> (\<forall>e \<in> set evs. silentEvent e)
        \<and> \<not> silentEvent e \<longrightarrow> schedulesTick (pending s')"
    using loop_step_wakes [of e _ s']
    by (auto simp: loop_run_snoc split: option.splits)
  have c: "(\<exists>d. snd (Update m x) = Some (Tick d))
        = (x \<noteq> KeyMsg ''q'' \<and> x \<noteq> quitMsg \<and> (\<forall>rs. x \<noteq> checkResultsMsg rs))"
    by (rule Update_tick_iff)
  have d: "Init m = RunChecksCmd \<and> pending loop_init = [RunChecksCmd]"
    by (simp add: Init_def loop_init_def)
  have u: "snd (Update m (checkResultsMsg rs)) = None
   \<and> snd (Update m (KeyMsg ''q'')) = Some QuitMsgCmd
   \<and> snd (Update m quitMsg) = Some Quit
   \<and> (k \<noteq> ''q'' \<longrightarrow> snd (Update m (KeyMsg k)) = Some (Tick 100))
   \<and> snd (Update m otherMsg) = Some (Tick 100)
   \<and> snd (Update m tickMsg) = Some (Tick 100)"
    by simp
  from a b c d u show ?thesis by blast
qed

theorem Init_schedules_no_tick_witness:
  "loop_run loop_init [KeyPress ''q'', Complete 1 [], Complete 0 sample_schedule] \<noteq> None
   \<and> silentEvent (KeyPress ''q'') \<and> silentEvent (Complete 1 [])
   \<and> silentEvent (Complete 0 sample_schedule)
   \<and> spinner (mdl (the (loop_run loop_init
         [KeyPress ''q'', Complete 1 [], Complete 0 sample_schedule]))) = 0
   \<and> \<not> schedulesTick (pending (the (loop_run loop_init
         [KeyPress ''q'', Complete 1 [], Complete 0 sample_schedule])))
   \<and> loop_run loop_init ([KeyPress ''q''] @ [Other]) \<noteq> None
   \<and> \<not> silentEvent Other
   \<and> schedulesTick (pending (the (loop_run loop_init ([KeyPress ''q''] @ [Other]))))
   \<and> ''x'' \<noteq> ''q''
   \<and> snd (Update model0 (KeyMsg ''x'')) = Some (Tick 100)"
proof -
  have "loop_run loop_init [KeyPress ''q'', Complete 1 [], Complete 0 sample_schedule] \<noteq> None"
    by code_simp
  then obtain s where
    g: "loop_run loop_init [KeyPress ''q'', Complete 1 [], Complete 0 sample_schedule] = Some s"
    by blast
  have "loop_run loop_init ([KeyPress ''q''] @ [Other]) \<noteq> None" by code_simp
  then obtain s' where g': "loop_run loop_init ([KeyPress ''q''] @ [Other]) = Some s'"
    by blast
  from Init_schedules_no_tick [where evs = "[KeyPress ''q'', Complete 1 [], Complete 0 sample_schedule]"
      and s = s and m = model0 and k = "''x''"] g
  have p: "spinner (mdl s) = 0 \<and> \<not> schedulesTick (pending s)
           \<and> snd (Update model0 (KeyMsg ''x'')) = Some (Tick 100)"
    by simp
  from Init_schedules_no_tick [where evs = "[KeyPress ''q'']" and e = Other and s' = s'] g'
  have q: "schedulesTick (pending s')" by simp
  from g g' p q show ?thesis by simp
qed

text \<open>
  The command of Init, with which the loop starts, holds no tick.
\<close>

theorem Init_schedules_tick_counterexample:
  "Init model0 = RunChecksCmd
   \<and> pending loop_init = [RunChecksCmd]
   \<and> \<not> schedulesTick (pending loop_init)
   \<and> \<not> schedulesTick [Init model0]"
  by code_simp


section \<open>Arguments and the privilege gate\<close>

lemma View_json_iff:
  assumes "\<not> quitting m" and "results m \<noteq> []"
  shows "(View outputFormat m = Inr (IndentedJson (results m))) = (outputFormat = ''json'')"
    and "(\<exists>w. View outputFormat m = Inr (Tabbed w)) = (outputFormat \<noteq> ''json'')"
  using assms by (auto simp: View_def Let_def)

text \<open>
  C8, as amended. For every argument list, main selects the JSON output mode
  exactly when the first argument after the program name is --json, and the
  tabular mode otherwise; no argument changes what main does besides, so none
  is rejected. View then returns the JSON document in the first case and the
  table in the second.
\<close>

theorem main_output_format:
  "(fst (main args euid runErr) = ''json'') = (1 < length args \<and> args ! 1 = ''--json'')
   \<and> (fst (main args euid runErr) = ''json'' \<or> fst (main args euid runErr) = [])
   \<and> snd (main args euid runErr) = snd (main args' euid runErr)
   \<and> (\<not> quitting m \<and> results m \<noteq> [] \<longrightarrow>
        (View (fst (main args euid runErr)) m = Inr (IndentedJson (results m)))
          = (1 < length args \<and> args ! 1 = ''--json'')
        \<and> (\<exists>w. View (fst (main args euid runErr)) m = Inr (Tabbed w))
          = (\<not> (1 < length args \<and> args ! 1 = ''--json'')))"
proof -
  have f: "(fst (main args euid runErr) = ''json'') = (1 < length args \<and> args ! 1 = ''--json'')"
    by (simp add: main_def parseArgs_def)
  have g: "fst (main args euid runErr) = ''json'' \<or> fst (main args euid runErr) = []"
    by (simp add: main_def parseArgs_def)
  have h: "snd (main args euid runErr) = snd (main args' euid runErr)"
    by (simp add: main_def)
  from View_json_iff [of m "fst (main args euid runErr)"] f
  have "\<not> quitting m \<and> results m \<noteq> [] \<longrightarrow>
        (View (fst (main args euid runErr)) m = Inr (IndentedJson (results m)))
          = (1 < length args \<and> args ! 1 = ''--json'')
        \<and> (\<exists>w. View (fst (main args euid runErr)) m = Inr (Tabbed w))
          = (\<not> (1 < length args \<and> args ! 1 = ''--json''))"
    by simp
  with f g h show ?thesis by blast
qed

theorem main_output_format_witness:
  "fst (main [''kumo'', ''--json'', ''--verbose''] 0 None) = ''json''
   \<and> snd (main [''kumo'', ''--json'', ''--verbose''] 0 None) = snd (main [''kumo''] 0 None)
   \<and> \<not> quitting sample_display \<and> results sample_display \<noteq> []
   \<and> View (fst (main [''kumo'', ''--json'', ''--verbose''] 0 None)) sample_display
       = Inr (IndentedJson (results sample_display))"
proof -
  have a: "\<not> quitting sample_display \<and> results sample_display \<noteq> []"
    by (simp add: sample_display_def)
  have b: "1 < length [''kumo'', ''--json'', ''--verbose'']
           \<and> [''kumo'', ''--json'', ''--verbose''] ! 1 = ''--json''"
    by simp
  from main_output_format [of "[''kumo'', ''--json'', ''--verbose'']" 0 None "[''kumo'']" sample_display]
    a b
  show ?thesis by auto
qed

text \<open>
  An argument list that passes --json behind another argument: the tabular
  mode is selected.
\<close>

theorem main_output_format_counterexample:
  "''--json'' \<in> set (tl [''kumo'', ''-v'', ''--json''])
   \<and> fst (main [''kumo'', ''-v'', ''--json''] 0 None) = []
   \<and> View (fst (main [''kumo'', ''-v'', ''--json''] 0 None)) sample_display
       \<noteq> Inr (IndentedJson (results sample_display))"
  by code_simp

text \<open>
  C9. When the effective user id is not 0, main logs the fatal message, exits
  with status 1, and neither makes the program with its model nor runs it, so
  no check is launched. When it is 0, main makes the program and runs it, and
  the message about root is not logged.
\<close>

theorem main_privilege_gate:
  "(euid \<noteq> 0 \<longrightarrow>
      snd (main args euid runErr)
        = [SetLogOutput, SetLogLevel, LogFatal ''This program must be run as root.'', Exit 1]
      \<and> Run \<notin> set (snd (main args euid runErr))
      \<and> (\<forall>m. NewProgram m \<notin> set (snd (main args euid runErr))))
   \<and> (euid = 0 \<longrightarrow>
      take 4 (snd (main args euid runErr)) = [SetLogOutput, SetLogLevel, NewProgram model0, Run]
      \<and> LogFatal ''This program must be run as root.'' \<notin> set (snd (main args euid runErr)))"
  by (cases runErr) (auto simp: main_def)

theorem main_privilege_gate_witness:
  "(1000::int) \<noteq> 0
   \<and> snd (main [''kumo''] 1000 None)
       = [SetLogOutput, SetLogLevel, LogFatal ''This program must be run as root.'', Exit 1]
   \<and> snd (main [''kumo''] 0 None) = [SetLogOutput, SetLogLevel, NewProgram model0, Run]"
proof -
  have "snd (main [''kumo''] 0 None) = [SetLogOutput, SetLogLevel, NewProgram model0, Run]"
    by (simp add: main_def)
  with main_privilege_gate [of 1000 "[''kumo'']" None] main_privilege_gate [of 0 "[''kumo'']" None]
  show ?thesis by simp
qed


end
